theory Spec2Isabelle
  imports Main
begin

section \<open>Data model of dns\_migration.py\<close>

text \<open>
  The exceptions the script can meet.  \<open>BadResponse\<close> is godaddypy's; \<open>InvalidInput\<close>,
  \<open>InvalidDomainName\<close> and \<open>HostedZoneAlreadyExists\<close> are the Route 53 client's;
  \<open>KeyError\<close> is Python's for a missing dictionary key; \<open>OtherError\<close> stands for
  any other exception a backend call raises.
\<close>

datatype error =
    BadResponse
  | InvalidInput
  | InvalidDomainName
  | HostedZoneAlreadyExists
  | KeyError string
  | OtherError string

text \<open>
  One record as godaddypy returns it: a dictionary with the keys \<open>name\<close>, \<open>type\<close>,
  \<open>data\<close> and \<open>ttl\<close>; the key \<open>priority\<close> is present on some records only
  (\<open>None\<close> when the key is missing).
\<close>

record dns_record =
  r_name :: string
  r_type :: string
  r_data :: string
  r_ttl :: int
  r_priority :: "int option"

text \<open>The value of one key of \<open>aggregated_records\<close>, with the list of \<open>{'Value': ...}\<close>
  dictionaries kept as the list of the values.\<close>

record record_set =
  Name :: string
  Type :: string
  TTL :: int
  ResourceRecords :: "string list"

record change =
  Action :: string
  ResourceRecordSet :: record_set

section \<open>Python strings\<close>

text \<open>\<open>str(n)\<close> for an integer, as the f-string of the MX rule formats the priority.\<close>

definition digit :: "nat \<Rightarrow> char" where
  "digit n = ''0123456789'' ! (n mod 10)"

function str_nat :: "nat \<Rightarrow> string" where
  "str_nat n = (if n < 10 then [digit n] else str_nat (n div 10) @ [digit n])"
  by pat_completeness auto
termination
  by (relation "measure id") auto

definition str_int :: "int \<Rightarrow> string" where
  "str_int i = (if i < 0 then CHR ''-'' # str_nat (nat (- i)) else str_nat (nat i))"

text \<open>
  \<open>str.split()\<close> without argument: the string is cut at runs of whitespace and no empty
  field is returned.  The whitespace characters below 256 are the codes 9 to 13, 28 to 32,
  133 and 160.
\<close>

definition isspace :: "char \<Rightarrow> bool" where
  "isspace c = (of_char c \<in> set [9, 10, 11, 12, 13, 28, 29, 30, 31, 32, 133, 160 :: nat])"

fun split_from :: "string \<Rightarrow> string \<Rightarrow> string list" where
  "split_from cur [] = (if cur = [] then [] else [cur])"
| "split_from cur (c # cs) =
     (if isspace c then (if cur = [] then split_from [] cs else cur # split_from [] cs)
      else split_from (cur @ [c]) cs)"

definition py_split :: "string \<Rightarrow> string list" where
  "py_split s = split_from [] s"

section \<open>The migration decision\<close>

text \<open>The test of the loop of \<open>requires_zone_migration\<close> on one record, and the loop
  that sets \<open>domain_parked\<close>; the method itself, which reads \<open>self.records\<close>, is
  below.\<close>

definition is_parked_apex :: "dns_record \<Rightarrow> bool" where
  "is_parked_apex record = (r_name record = ''@'' \<and> r_type record = ''A'' \<and> r_data record = ''Parked'')"

fun parked_loop :: "dns_record list \<Rightarrow> bool \<Rightarrow> bool" where
  "parked_loop [] domain_parked = domain_parked"
| "parked_loop (record # rest) domain_parked =
     parked_loop rest (if is_parked_apex record then True else domain_parked)"

section \<open>The record transformation of r53\_create\_records\<close>

text \<open>What one pass of the loop body does with a record: \<open>Skipped\<close> is one of the three
  early \<open>continue\<close>s (the record is untouched), \<open>Rejected\<close> the \<open>continue\<close> of the SRV
  check (the record is already rewritten), \<open>Raised\<close> the \<open>KeyError\<close> of an MX record
  without \<open>priority\<close> (its name is already rewritten), \<open>Kept\<close> a record that reaches the
  aggregation.  Each carries the record as the loop body leaves it in the list.\<close>

datatype outcome =
    Skipped dns_record
  | Rejected dns_record
  | Raised error dns_record
  | Kept dns_record

definition rewrite_cname :: "string \<Rightarrow> dns_record \<Rightarrow> dns_record" where
  "rewrite_cname self_name record =
     (if r_type record = ''CNAME'' \<and> r_data record = ''@''
      then record\<lparr>r_data := self_name\<rparr> else record)"

definition rewrite_website_builder :: "dns_record \<Rightarrow> dns_record" where
  "rewrite_website_builder record =
     (if r_type record = ''A'' \<and> r_data record = ''WebsiteBuilder Site''
      then record\<lparr>r_data := ''76.223.105.230''\<rparr> else record)"

definition rewrite_name :: "string \<Rightarrow> dns_record \<Rightarrow> dns_record" where
  "rewrite_name self_name record =
     (if r_name record = ''@'' then record\<lparr>r_name := self_name\<rparr>
      else record\<lparr>r_name := r_name record @ ''.'' @ self_name\<rparr>)"

definition rewrite_txt :: "dns_record \<Rightarrow> dns_record" where
  "rewrite_txt record =
     (if r_type record = ''TXT''
      then record\<lparr>r_data := [CHR 0x22] @ r_data record @ [CHR 0x22]\<rparr> else record)"

definition check_srv :: "dns_record \<Rightarrow> outcome" where
  "check_srv record =
     (if r_type record = ''SRV'' \<and> length (py_split (r_data record)) \<noteq> 4
      then Rejected record else Kept record)"

definition process_record :: "string \<Rightarrow> dns_record \<Rightarrow> outcome" where
  "process_record self_name record =
     (if r_type record \<in> set [''SOA'', ''NS''] then Skipped record
      else if r_type record = ''A'' \<and> r_data record = ''Parked'' then Skipped record
      else if r_type record = ''CNAME'' \<and> r_name record = ''_domainconnect'' then Skipped record
      else
        let record = rewrite_cname self_name record;
            record = rewrite_website_builder record;
            record = rewrite_name self_name record
        in if r_type record = ''MX'' then
             (case r_priority record of
                None \<Rightarrow> Raised (KeyError ''priority'') record
              | Some p \<Rightarrow>
                  check_srv (rewrite_txt (record\<lparr>r_data := str_int p @ '' '' @ r_data record\<rparr>)))
           else check_srv (rewrite_txt record))"

text \<open>\<open>aggregated_records\<close> is a dictionary, which keeps its keys in the order of their
  first insertion: an association list with new keys added at the end.\<close>

type_synonym aggregated = "((string \<times> string) \<times> record_set) list"

definition aggregate :: "dns_record \<Rightarrow> aggregated \<Rightarrow> aggregated" where
  "aggregate record aggregated_records =
     (let key = (r_name record, r_type record);
          aggregated_records =
            (if key \<notin> set (map fst aggregated_records)
             then aggregated_records @
                    [(key, \<lparr>Name = r_name record, Type = r_type record, TTL = r_ttl record,
                            ResourceRecords = []\<rparr>)]
             else aggregated_records)
      in map (\<lambda>(k, v). if k = key
                        then (k, v\<lparr>ResourceRecords := ResourceRecords v @ [r_data record]\<rparr>)
                        else (k, v))
           aggregated_records)"

text \<open>The \<open>for record in self.records\<close> loop: it returns the list of records as the loop
  leaves them (they are mutated in place; after a \<open>KeyError\<close> the rest is untouched) and
  the dictionary, or the exception.\<close>

fun records_loop ::
  "string \<Rightarrow> dns_record list \<Rightarrow> aggregated \<Rightarrow> dns_record list \<times> (error + aggregated)" where
  "records_loop self_name [] aggregated_records = ([], Inr aggregated_records)"
| "records_loop self_name (record # rest) aggregated_records =
     (case process_record self_name record of
        Skipped record' \<Rightarrow>
          (let (rest', result) = records_loop self_name rest aggregated_records
           in (record' # rest', result))
      | Rejected record' \<Rightarrow>
          (let (rest', result) = records_loop self_name rest aggregated_records
           in (record' # rest', result))
      | Raised e record' \<Rightarrow> (record' # rest, Inl e)
      | Kept record' \<Rightarrow>
          (let (rest', result) =
                 records_loop self_name rest (aggregate record' aggregated_records)
           in (record' # rest', result)))"

definition make_changes :: "aggregated \<Rightarrow> change list" where
  "make_changes aggregated_records =
     map (\<lambda>aggregated_record. \<lparr>Action = ''UPSERT'', ResourceRecordSet = aggregated_record\<rparr>)
       (map snd aggregated_records)"

section \<open>The Domain object and the backends\<close>

record Domain =
  d_name :: string
  d_r53_zone_id :: "string option"
  d_index :: nat
  d_records :: "dns_record list option"

record hosted_zone =
  z_Name :: string
  z_Id :: string

text \<open>
  The two remote services, as the answers they give.  \<open>gd_get_records name k\<close> is the
  answer of the registrar to the call that \<open>k\<close> calls of \<open>get_records\<close> came before,
  so that a service may answer the same question differently later.  An answer \<open>Inl e\<close>
  is the exception \<open>e\<close> raised by the call.
\<close>

record backend =
  gd_get_records :: "string \<Rightarrow> nat \<Rightarrow> error + dns_record list"
  gd_update_domain :: "string \<Rightarrow> string list \<Rightarrow> error + unit"
  list_hosted_zones_by_name :: "string \<Rightarrow> error + hosted_zone list"
  create_hosted_zone :: "string \<Rightarrow> error + string"
  get_hosted_zone :: "string option \<Rightarrow> error + string list"
  change_resource_record_sets :: "string option \<Rightarrow> change list \<Rightarrow> error + string"

text \<open>A Domain together with the number of \<open>get_records\<close> calls made so far.\<close>

type_synonym dstate = "Domain \<times> nat"

text \<open>Python's truth value of an attribute that is \<open>None\<close>, a list or a string:
  \<open>None\<close> and the empty sequence are false.\<close>

definition truthy :: "'a list option \<Rightarrow> bool" where
  "truthy v = (case v of None \<Rightarrow> False | Some xs \<Rightarrow> xs \<noteq> [])"

text \<open>The property \<open>records\<close>: \<open>if not self._records\<close> fetches, and \<open>BadResponse\<close>
  alone is caught.  The call goes through \<open>GoDaddyClient.get_records\<close>, whose wait
  changes the clock only; the wait is modelled on its own in the last section.\<close>

definition records :: "backend \<Rightarrow> dstate \<Rightarrow> (error + dns_record list) \<times> dstate" where
  "records env s =
     (let (self, calls) = s in
      if \<not> truthy (d_records self) then
        (case gd_get_records env (d_name self) calls of
           Inr fetched \<Rightarrow> (Inr fetched, (self\<lparr>d_records := Some fetched\<rparr>, Suc calls))
         | Inl BadResponse \<Rightarrow> (Inr [], (self\<lparr>d_records := Some []\<rparr>, Suc calls))
         | Inl e \<Rightarrow> (Inl e, (self, Suc calls)))
      else (case d_records self of
              Some cached \<Rightarrow> (Inr cached, (self, calls))
            | None \<Rightarrow> (Inr [], (self, calls))))"

text \<open>The property \<open>r53_zone_id\<close>.  The loop over the zones stops at the first zone named
  \<open>self.name + '.'\<close>.  In \<open>except InvalidInput or InvalidDomainName\<close> the expression
  \<open>A or B\<close> of two classes is \<open>A\<close>, so \<open>InvalidInput\<close> is the one exception caught.\<close>

fun find_zone :: "hosted_zone list \<Rightarrow> string \<Rightarrow> string option \<Rightarrow> string option" where
  "find_zone [] self_name zone_id = zone_id"
| "find_zone (zone # rest) self_name zone_id =
     (if z_Name zone = self_name @ ''.'' then Some (z_Id zone)
      else find_zone rest self_name zone_id)"

definition r53_zone_id :: "backend \<Rightarrow> Domain \<Rightarrow> (error + string option) \<times> Domain" where
  "r53_zone_id env self =
     (if truthy (d_r53_zone_id self) then (Inr (d_r53_zone_id self), self)
      else
        (case list_hosted_zones_by_name env (d_name self) of
           Inr zones \<Rightarrow>
             (let zone_id = find_zone zones (d_name self) (d_r53_zone_id self)
              in (Inr zone_id, self\<lparr>d_r53_zone_id := zone_id\<rparr>))
         | Inl InvalidInput \<Rightarrow> (Inr (d_r53_zone_id self), self)
         | Inl e \<Rightarrow> (Inl e, self)))"

definition gd_dns_exists :: "backend \<Rightarrow> dstate \<Rightarrow> (error + bool) \<times> dstate" where
  "gd_dns_exists env s =
     (case records env s of
        (Inl e, s1) \<Rightarrow> (Inl e, s1)
      | (Inr rs, s1) \<Rightarrow> (Inr (length rs > 0), s1))"

definition requires_zone_migration :: "backend \<Rightarrow> dstate \<Rightarrow> (error + bool) \<times> dstate" where
  "requires_zone_migration env s =
     (case gd_dns_exists env s of
        (Inl e, s1) \<Rightarrow> (Inl e, s1)
      | (Inr exists, s1) \<Rightarrow>
          if \<not> exists then (Inr False, s1)
          else
            (case records env s1 of
               (Inl e, s2) \<Rightarrow> (Inl e, s2)
             | (Inr rs, s2) \<Rightarrow>
                 if \<not> parked_loop rs False then (Inr True, s2)
                 else
                   (case records env s2 of
                      (Inl e, s3) \<Rightarrow> (Inl e, s3)
                    | (Inr rs', s3) \<Rightarrow>
                        if length rs' \<le> 6 then (Inr True, s3) else (Inr False, s3))))"

definition gd_update_nameservers :: "backend \<Rightarrow> Domain \<Rightarrow> string list \<Rightarrow> bool" where
  "gd_update_nameservers env self nameservers =
     (case gd_update_domain env (d_name self) nameservers of
        Inr _ \<Rightarrow> True
      | Inl e \<Rightarrow> False)"

definition r53_zone_exists :: "backend \<Rightarrow> Domain \<Rightarrow> (error + bool) \<times> Domain" where
  "r53_zone_exists env self =
     (case r53_zone_id env self of
        (Inl e, self) \<Rightarrow> (Inl e, self)
      | (Inr zone_id, self) \<Rightarrow> (Inr (truthy zone_id), self))"

definition r53_get_nameservers :: "backend \<Rightarrow> Domain \<Rightarrow> string list \<times> Domain" where
  "r53_get_nameservers env self =
     (case r53_zone_id env self of
        (Inl e, self) \<Rightarrow> ([], self)
      | (Inr zone_id, self) \<Rightarrow>
          (case get_hosted_zone env zone_id of
             Inr nameservers \<Rightarrow> (nameservers, self)
           | Inl e \<Rightarrow> ([], self)))"

text \<open>\<open>r53_create_zone\<close>: every exception of the creation call is caught; the property is
  then read twice, outside the \<open>try\<close>, for the log line and for the result.\<close>

definition r53_create_zone :: "backend \<Rightarrow> Domain \<Rightarrow> (error + string option) \<times> Domain" where
  "r53_create_zone env self =
     (let self = (case create_hosted_zone env (d_name self) of
                    Inr zone_id \<Rightarrow> self\<lparr>d_r53_zone_id := Some zone_id\<rparr>
                  | Inl e \<Rightarrow> self)
      in case r53_zone_id env self of
           (Inl e, self) \<Rightarrow> (Inl e, self)
         | (Inr _, self) \<Rightarrow> r53_zone_id env self)"

fun has_mx_loop :: "dns_record list \<Rightarrow> bool" where
  "has_mx_loop [] = False"
| "has_mx_loop (record # rest) = (if r_type record = ''MX'' then True else has_mx_loop rest)"

definition has_mx_records :: "backend \<Rightarrow> dstate \<Rightarrow> (error + bool) \<times> dstate" where
  "has_mx_records env s =
     (case records env s of
        (Inl e, s1) \<Rightarrow> (Inl e, s1)
      | (Inr rs, s1) \<Rightarrow> (Inr (has_mx_loop rs), s1))"

text \<open>\<open>r53_create_records\<close>: the loop mutates the records of the cached list, then the
  batch is sent; nothing is caught.\<close>

definition r53_create_records :: "backend \<Rightarrow> dstate \<Rightarrow> (error + string) \<times> dstate" where
  "r53_create_records env s =
     (case records env s of
        (Inl e, s1) \<Rightarrow> (Inl e, s1)
      | (Inr rs, (self, calls)) \<Rightarrow>
          (let (rs', result) = records_loop (d_name self) rs [];
               self = self\<lparr>d_records := Some rs'\<rparr>
           in case result of
                Inl e \<Rightarrow> (Inl e, (self, calls))
              | Inr aggregated_records \<Rightarrow>
                  (let changes = make_changes aggregated_records
                   in case r53_zone_id env self of
                        (Inl e, self) \<Rightarrow> (Inl e, (self, calls))
                      | (Inr zone_id, self) \<Rightarrow>
                          (change_resource_record_sets env zone_id changes, (self, calls)))))"

section \<open>The processing loop\<close>

text \<open>One row of \<open>domains_data\<close>: the five columns the loop writes, \<open>None\<close> where
  nothing was written.  The table maps the row index to the row.\<close>

record row =
  has_godaddy_dns :: "string option"
  requires_dns_migration :: "string option"
  aws_zone_id :: "string option"
  aws_dns_records_created :: "string option"
  supports_email :: "string option"

type_synonym table = "nat \<Rightarrow> row"

definition blank_row :: row where
  "blank_row = \<lparr>has_godaddy_dns = None, requires_dns_migration = None, aws_zone_id = None,
                 aws_dns_records_created = None, supports_email = None\<rparr>"

definition yes_no :: "bool \<Rightarrow> string option" where
  "yes_no b = Some (if b then ''Yes'' else ''No'')"

text \<open>The branch of the loop body taken when the domain requires migration.\<close>

definition migrate :: "backend \<Rightarrow> dstate \<Rightarrow> table \<Rightarrow> (error + unit) \<times> dstate \<times> table" where
  "migrate env s tbl =
     (let (domain, calls) = s;
          i = d_index domain;
          tbl = tbl(i := (tbl i)\<lparr>requires_dns_migration := Some ''Yes''\<rparr>)
      in case r53_zone_exists env domain of
           (Inl e, domain) \<Rightarrow> (Inl e, (domain, calls), tbl)
         | (Inr exists, domain) \<Rightarrow>
             (case (if \<not> exists then r53_create_zone env domain else (Inr None, domain)) of
                (Inl e, domain) \<Rightarrow> (Inl e, (domain, calls), tbl)
              | (Inr _, domain) \<Rightarrow>
                  (case r53_zone_id env domain of
                     (Inl e, domain) \<Rightarrow> (Inl e, (domain, calls), tbl)
                   | (Inr zone_id, domain) \<Rightarrow>
                       (let tbl = tbl(i := (tbl i)\<lparr>aws_zone_id := zone_id\<rparr>)
                        in case r53_create_records env (domain, calls) of
                             (Inl e, s1) \<Rightarrow> (Inl e, s1, tbl)
                           | (Inr response, (domain, calls)) \<Rightarrow>
                               (let tbl = tbl(i := (tbl i)\<lparr>aws_dns_records_created := Some ''Yes''\<rparr>);
                                    (nameservers, domain) = r53_get_nameservers env domain;
                                    updated = (if nameservers \<noteq> []
                                               then gd_update_nameservers env domain nameservers
                                               else False)
                                in (Inr (), (domain, calls), tbl))))))"

definition process_domain :: "backend \<Rightarrow> dstate \<Rightarrow> table \<Rightarrow> (error + unit) \<times> dstate \<times> table" where
  "process_domain env s tbl =
     (let i = d_index (fst s) in
      case gd_dns_exists env s of
        (Inl e, s) \<Rightarrow> (Inl e, s, tbl)
      | (Inr exists, s) \<Rightarrow>
          (let tbl = tbl(i := (tbl i)\<lparr>has_godaddy_dns := yes_no exists\<rparr>)
           in case requires_zone_migration env s of
                (Inl e, s) \<Rightarrow> (Inl e, s, tbl)
              | (Inr required, s) \<Rightarrow>
                  (case (if required then migrate env s tbl
                         else (Inr (), s,
                               tbl(i := (tbl i)\<lparr>requires_dns_migration := Some ''No'',
                                                aws_dns_records_created := Some ''No''\<rparr>))) of
                     (Inl e, s, tbl) \<Rightarrow> (Inl e, s, tbl)
                   | (Inr _, s, tbl) \<Rightarrow>
                       (case has_mx_records env s of
                          (Inl e, s) \<Rightarrow> (Inl e, s, tbl)
                        | (Inr mx, s) \<Rightarrow>
                            (Inr (), s, tbl(i := (tbl i)\<lparr>supports_email := yes_no mx\<rparr>))))))"

text \<open>\<open>for domain in domains\<close>: there is no \<open>try\<close> in the loop, so an exception of one
  domain ends it.  The log collects the names of the \<open>Processing domain\<close> lines.\<close>

fun main_loop ::
  "backend \<Rightarrow> Domain list \<Rightarrow> nat \<Rightarrow> table \<Rightarrow> string list \<Rightarrow> (error + table) \<times> string list" where
  "main_loop env [] calls tbl log = (Inr tbl, log)"
| "main_loop env (domain # rest) calls tbl log =
     (case process_domain env (domain, calls) tbl of
        (Inl e, _) \<Rightarrow> (Inl e, log @ [d_name domain])
      | (Inr _, (_, calls), tbl) \<Rightarrow> main_loop env rest calls tbl (log @ [d_name domain]))"

text \<open>The run from the loop to \<open>to_csv\<close>: the rows written to the output file (\<open>None\<close>
  when the run ends with an exception before \<open>to_csv\<close>) and the log.\<close>

definition main :: "backend \<Rightarrow> Domain list \<Rightarrow> row list option \<times> string list" where
  "main env domains =
     (case main_loop env domains 0 (\<lambda>i. blank_row) [] of
        (Inl e, log) \<Rightarrow> (None, log)
      | (Inr tbl, log) \<Rightarrow> (Some (map (\<lambda>domain. tbl (d_index domain)) domains), log))"

section \<open>The throttled GoDaddy client\<close>

text \<open>Times are the clock readings of \<open>datetime.now()\<close> in microseconds.  \<open>wait_until\<close>
  takes the reading at its entry and returns the client and the reading at its exit;
  \<open>sleep\<close> lasts as long as it is asked to.\<close>

record GoDaddyClient =
  last_call_time :: int

definition wait_time :: int where
  "wait_time = 1000 * 1000"

definition GoDaddyClient_init :: "int \<Rightarrow> GoDaddyClient" where
  "GoDaddyClient_init now = \<lparr>last_call_time = now\<rparr>"

definition wait_until :: "GoDaddyClient \<Rightarrow> int \<Rightarrow> GoDaddyClient \<times> int" where
  "wait_until self now =
     (let time_since_last_call = now - last_call_time self in
      if time_since_last_call < wait_time then
        (let time_to_wait = wait_time - time_since_last_call;
             now = now + time_to_wait
         in (self\<lparr>last_call_time := now\<rparr>, now))
      else (self, now))"

text \<open>\<open>n\<close> calls through the client one after the other, each taking no time: the clock
  readings at which the wrapped calls start.\<close>

fun consecutive_calls :: "GoDaddyClient \<Rightarrow> int \<Rightarrow> nat \<Rightarrow> int list" where
  "consecutive_calls self now 0 = []"
| "consecutive_calls self now (Suc n) =
     (let (self, start) = wait_until self now in start # consecutive_calls self start n)"

section \<open>Notions used in the statements\<close>

text \<open>The record the loop body leaves in the cached list, the records that reach the
  aggregation (rewritten, in the order met), the dictionary key of a record, and what the
  dictionary holds after the records \<open>ks\<close> were aggregated.\<close>

definition mutated :: "string \<Rightarrow> dns_record \<Rightarrow> dns_record" where
  "mutated self_name record =
     (case process_record self_name record of
        Skipped r \<Rightarrow> r | Rejected r \<Rightarrow> r | Raised e r \<Rightarrow> r | Kept r \<Rightarrow> r)"

definition surviving :: "string \<Rightarrow> dns_record list \<Rightarrow> dns_record list" where
  "surviving self_name rs =
     concat (map (\<lambda>record. case process_record self_name record of Kept r \<Rightarrow> [r] | _ \<Rightarrow> []) rs)"

definition key_of :: "dns_record \<Rightarrow> string \<times> string" where
  "key_of record = (r_name record, r_type record)"

definition agg_inv :: "aggregated \<Rightarrow> dns_record list \<Rightarrow> bool" where
  "agg_inv agg ks =
     (distinct (map fst agg) \<and> set (map fst agg) = key_of ` set ks \<and>
      (\<forall>(k, v) \<in> set agg.
         Name v = fst k \<and> Type v = snd k \<and>
         ResourceRecords v = map r_data (filter (\<lambda>r. key_of r = k) ks) \<and>
         TTL v = r_ttl (hd (filter (\<lambda>r. key_of r = k) ks))))"

text \<open>The drop rules as the specification words them, on the record as fetched.\<close>

definition spec_dropped :: "dns_record \<Rightarrow> bool" where
  "spec_dropped record =
     (r_type record = ''SOA'' \<or> r_type record = ''NS'' \<or>
      (r_type record = ''A'' \<and> r_data record = ''Parked'') \<or>
      (r_type record = ''CNAME'' \<and> r_name record = ''_domainconnect'') \<or>
      (r_type record = ''SRV'' \<and> length (py_split (r_data record)) \<noteq> 4))"

definition total_values :: "aggregated \<Rightarrow> nat" where
  "total_values agg = sum_list (map (\<lambda>p. length (ResourceRecords (snd p))) agg)"

section \<open>Concrete domains and backends\<close>

definition www_record :: dns_record where
  "www_record = \<lparr>r_name = ''www'', r_type = ''A'', r_data = ''192.0.2.10'', r_ttl = 600,
                  r_priority = None\<rparr>"

definition apex_record :: dns_record where
  "apex_record = \<lparr>r_name = ''@'', r_type = ''A'', r_data = ''192.0.2.1'', r_ttl = 600,
                   r_priority = None\<rparr>"

definition mx_record :: dns_record where
  "mx_record = \<lparr>r_name = ''@'', r_type = ''MX'', r_data = ''mail.example.com'', r_ttl = 3600,
                 r_priority = Some 10\<rparr>"

definition www_pair :: "dns_record list" where
  "www_pair = [\<lparr>r_name = ''www'', r_type = ''A'', r_data = ''1.2.3.4'', r_ttl = 600,
                 r_priority = None\<rparr>,
               \<lparr>r_name = ''www'', r_type = ''A'', r_data = ''5.6.7.8'', r_ttl = 3600,
                 r_priority = None\<rparr>]"

definition srv_records :: "dns_record list" where
  "srv_records = [\<lparr>r_name = ''_sip._tcp'', r_type = ''SRV'', r_data = ''10 20 5060'', r_ttl = 600,
                    r_priority = Some 10\<rparr>,
                  \<lparr>r_name = ''@'', r_type = ''NS'', r_data = ''ns1.domaincontrol.com'',
                    r_ttl = 3600, r_priority = None\<rparr>,
                  \<lparr>r_name = ''@'', r_type = ''TXT'', r_data = ''v=spf1 -all'', r_ttl = 600,
                    r_priority = None\<rparr>]"

text \<open>A registrar that answers the first \<open>get_records\<close> call with \<open>BadResponse\<close> and
  the later ones with one record, and a Route 53 that rejects every name with
  \<open>InvalidDomainName\<close>.\<close>

definition flaky_backend :: backend where
  "flaky_backend =
     \<lparr>gd_get_records = (\<lambda>name k. if k = 0 then Inl BadResponse else Inr [www_record]),
      gd_update_domain = (\<lambda>name nameservers. Inr ()),
      list_hosted_zones_by_name = (\<lambda>name. Inl InvalidDomainName),
      create_hosted_zone = (\<lambda>name. Inr (''/hostedzone/'' @ name)),
      get_hosted_zone = (\<lambda>zone_id. Inr [''ns-1.awsdns-01.org'']),
      change_resource_record_sets = (\<lambda>zone_id changes. Inr ''PENDING'')\<rparr>"

text \<open>Backends on which every call succeeds, except the record batch for the zone of
  \<open>first.example\<close>, which Route 53 refuses.\<close>

definition rejecting_backend :: backend where
  "rejecting_backend =
     \<lparr>gd_get_records = (\<lambda>name k. Inr [www_record]),
      gd_update_domain = (\<lambda>name nameservers. Inr ()),
      list_hosted_zones_by_name = (\<lambda>name. Inr []),
      create_hosted_zone = (\<lambda>name. Inr (''/hostedzone/'' @ name)),
      get_hosted_zone = (\<lambda>zone_id. Inr [''ns-1.awsdns-01.org'']),
      change_resource_record_sets =
        (\<lambda>zone_id changes. if zone_id = Some ''/hostedzone/first.example''
                             then Inl (OtherError ''InvalidChangeBatch'') else Inr ''PENDING'')\<rparr>"

definition first_domain :: Domain where
  "first_domain = \<lparr>d_name = ''first.example'', d_r53_zone_id = None, d_index = 0,
                    d_records = None\<rparr>"

definition second_domain :: Domain where
  "second_domain = \<lparr>d_name = ''second.example'', d_r53_zone_id = None, d_index = 1,
                     d_records = None\<rparr>"

section \<open>Reading the records and deciding\<close>

lemma records_cached:
  assumes "records env s = (Inr rs, s1)" "rs \<noteq> []"
  shows "records env s1 = (Inr rs, s1)"
  using assms
  by (auto simp: records_def truthy_def Let_def split: prod.splits sum.splits error.splits option.splits if_splits)

lemma parked_loop_iff:
  "parked_loop rs b = (b \<or> (\<exists>r\<in>set rs. is_parked_apex r))"
  by (induction rs arbitrary: b) auto

lemma requires_zone_migration_result:
  assumes "fst (records env s) = Inr rs"
  shows "fst (requires_zone_migration env s) =
           Inr (rs \<noteq> [] \<and> (\<not> parked_loop rs False \<or> length rs \<le> 6))"
proof -
  obtain s1 where r: "records env s = (Inr rs, s1)"
    using assms by (cases "records env s") auto
  show ?thesis
  proof (cases "rs = []")
    case True
    with r show ?thesis by (simp add: requires_zone_migration_def gd_dns_exists_def)
  next
    case False
    from records_cached [OF r False] r False show ?thesis
      by (simp add: requires_zone_migration_def gd_dns_exists_def)
  qed
qed

lemma records_loop_result:
  "records_loop d rs agg = (rs', Inr agg') \<Longrightarrow>
     rs' = map (mutated d) rs \<and>
     agg' = foldl (\<lambda>a r. aggregate r a) agg (surviving d rs) \<and>
     (\<forall>r\<in>set rs. \<forall>e r'. process_record d r \<noteq> Raised e r')"
proof (induction rs arbitrary: agg rs' agg')
  case Nil
  then show ?case by (simp add: surviving_def)
next
  case (Cons r rs)
  show ?case
  proof (cases "process_record d r")
    case (Skipped x)
    with Cons.prems obtain rest where "records_loop d rs agg = (rest, Inr agg')" "rs' = x # rest"
      by (auto split: prod.splits)
    with Cons.IH [of agg rest agg'] Skipped show ?thesis
      by (simp add: mutated_def surviving_def)
  next
    case (Rejected x)
    with Cons.prems obtain rest where "records_loop d rs agg = (rest, Inr agg')" "rs' = x # rest"
      by (auto split: prod.splits)
    with Cons.IH [of agg rest agg'] Rejected show ?thesis
      by (simp add: mutated_def surviving_def)
  next
    case (Raised e x)
    with Cons.prems show ?thesis by simp
  next
    case (Kept x)
    with Cons.prems obtain rest where
      "records_loop d rs (aggregate x agg) = (rest, Inr agg')" "rs' = x # rest"
      by (auto split: prod.splits)
    with Cons.IH [of "aggregate x agg" rest agg'] Kept show ?thesis
      by (simp add: mutated_def surviving_def)
  qed
qed

lemma agg_inv_Nil: "agg_inv [] []"
  by (simp add: agg_inv_def)

lemma fst_upd:
  "map fst (map (\<lambda>(k, v). if k = key then (k, f v) else (k, v)) agg) = map fst agg"
  by (induction agg) auto

lemma in_upd:
  "(k, v') \<in> set (map (\<lambda>(k, v). if k = key then (k, f v) else (k, v)) agg) \<longleftrightarrow>
     (\<exists>v. (k, v) \<in> set agg \<and> v' = (if k = key then f v else v))"
  by (induction agg) (auto split: if_splits)

lemma agg_inv_step:
  assumes "agg_inv agg ks"
  shows "agg_inv (aggregate r agg) (ks @ [r])"
proof (cases "key_of r \<in> set (map fst agg)")
  case True
  then have nonempty: "filter (\<lambda>x. key_of x = key_of r) ks \<noteq> []"
    using assms by (auto simp: agg_inv_def filter_empty_conv)
  have agg: "aggregate r agg =
      map (\<lambda>(k, v). if k = key_of r
                     then (k, v\<lparr>ResourceRecords := ResourceRecords v @ [r_data r]\<rparr>)
                     else (k, v)) agg"
    using True by (simp add: aggregate_def key_of_def Let_def)
  have "distinct (map fst (aggregate r agg))" "set (map fst (aggregate r agg)) = key_of ` set (ks @ [r])"
    using assms True unfolding agg fst_upd by (auto simp: agg_inv_def)
  moreover have "Name v' = fst k \<and> Type v' = snd k \<and>
         ResourceRecords v' = map r_data (filter (\<lambda>x. key_of x = k) (ks @ [r])) \<and>
         TTL v' = r_ttl (hd (filter (\<lambda>x. key_of x = k) (ks @ [r])))"
    if "(k, v') \<in> set (aggregate r agg)" for k v'
  proof -
    from that obtain v where v: "(k, v) \<in> set agg"
      "v' = (if k = key_of r then v\<lparr>ResourceRecords := ResourceRecords v @ [r_data r]\<rparr> else v)"
      unfolding agg in_upd by blast
    from v(1) assms have old: "Name v = fst k" "Type v = snd k"
      "ResourceRecords v = map r_data (filter (\<lambda>x. key_of x = k) ks)"
      "TTL v = r_ttl (hd (filter (\<lambda>x. key_of x = k) ks))"
      by (auto simp: agg_inv_def)
    show ?thesis
    proof (cases "k = key_of r")
      case True
      with v(2) old nonempty show ?thesis by simp
    next
      case False
      with v(2) old show ?thesis by auto
    qed
  qed
  ultimately show ?thesis
    unfolding agg_inv_def by blast
next
  case False
  then have "key_of r \<notin> key_of ` set ks"
    using assms by (simp add: agg_inv_def)
  then have empty: "filter (\<lambda>x. key_of x = key_of r) ks = []"
    by (induction ks) auto
  have miss: "map (\<lambda>(k, v). if k = key_of r
                     then (k, v\<lparr>ResourceRecords := ResourceRecords v @ [r_data r]\<rparr>)
                     else (k, v)) agg = agg"
    using False by (induction agg) auto
  have agg: "aggregate r agg =
      agg @ [(key_of r, \<lparr>Name = r_name r, Type = r_type r, TTL = r_ttl r,
                            ResourceRecords = [r_data r]\<rparr>)]"
    using False miss by (simp add: aggregate_def key_of_def Let_def)
  have "distinct (map fst (aggregate r agg))" "set (map fst (aggregate r agg)) = key_of ` set (ks @ [r])"
    using assms False unfolding agg by (auto simp: agg_inv_def)
  moreover have "Name v' = fst k \<and> Type v' = snd k \<and>
         ResourceRecords v' = map r_data (filter (\<lambda>x. key_of x = k) (ks @ [r])) \<and>
         TTL v' = r_ttl (hd (filter (\<lambda>x. key_of x = k) (ks @ [r])))"
    if "(k, v') \<in> set (aggregate r agg)" for k v'
  proof (cases "k = key_of r")
    case True
    with that False have "v' = \<lparr>Name = r_name r, Type = r_type r, TTL = r_ttl r,
                            ResourceRecords = [r_data r]\<rparr>"
      unfolding agg by (auto simp: image_iff)
    with True empty show ?thesis by (simp add: key_of_def)
  next
    case neq: False
    with that have "(k, v') \<in> set agg" unfolding agg by auto
    with assms have "Name v' = fst k" "Type v' = snd k"
      "ResourceRecords v' = map r_data (filter (\<lambda>x. key_of x = k) ks)"
      "TTL v' = r_ttl (hd (filter (\<lambda>x. key_of x = k) ks))"
      by (auto simp: agg_inv_def)
    with neq show ?thesis by auto
  qed
  ultimately show ?thesis
    unfolding agg_inv_def by blast
qed

lemma agg_inv_foldl:
  "agg_inv agg ks \<Longrightarrow> agg_inv (foldl (\<lambda>a r. aggregate r a) agg rs) (ks @ rs)"
proof (induction rs arbitrary: agg ks)
  case Nil
  then show ?case by simp
next
  case (Cons r rs)
  from Cons.IH [OF agg_inv_step [OF Cons.prems, of r]] show ?case by simp
qed

lemma records_loop_inv:
  assumes "records_loop d rs [] = (rs', Inr agg)"
  shows "agg_inv agg (surviving d rs)"
  using records_loop_result [OF assms] agg_inv_foldl [OF agg_inv_Nil, of "surviving d rs"]
  by simp

lemmas process_defs = process_record_def rewrite_cname_def rewrite_website_builder_def
  rewrite_name_def rewrite_txt_def check_srv_def Let_def

lemma kept_fields:
  assumes "process_record d r = Kept r'"
  shows "r_name r' = (if r_name r = ''@'' then d else r_name r @ ''.'' @ d)"
    and "r_type r' = r_type r" and "r_ttl r' = r_ttl r" and "r_priority r' = r_priority r"
  using assms by (auto simp: process_defs split: if_splits option.splits)

lemma raised_iff:
  "(\<exists>e x. process_record d r = Raised e x) \<longleftrightarrow>
     (r_type r = ''MX'' \<and> r_priority r = None)"
  by (auto simp: process_defs split: if_splits option.splits)

lemma kept_iff_aux:
  assumes "\<not> (r_type r = ''MX'' \<and> r_priority r = None)"
  shows "(\<exists>r'. process_record d r = Kept r') \<longleftrightarrow> \<not> spec_dropped r"
  using assms by (auto simp: process_defs spec_dropped_def split: if_splits option.splits)

lemma kept_iff:
  assumes "\<And>e x. process_record d r \<noteq> Raised e x"
  shows "(\<exists>r'. process_record d r = Kept r') \<longleftrightarrow> \<not> spec_dropped r"
  using assms raised_iff [of d r] kept_iff_aux [of r d] by blast

lemma kept_data:
  assumes "process_record d r = Kept r'"
  shows "r_type r = ''CNAME'' \<and> r_data r = ''@'' \<longrightarrow> r_data r' = d"
    and "r_type r = ''A'' \<and> r_data r = ''WebsiteBuilder Site'' \<longrightarrow> r_data r' = ''76.223.105.230''"
    and "r_type r = ''MX'' \<longrightarrow> (\<exists>p. r_priority r = Some p \<and> r_data r' = str_int p @ '' '' @ r_data r)"
    and "r_type r = ''TXT'' \<longrightarrow> r_data r' = [CHR 0x22] @ r_data r @ [CHR 0x22]"
  using assms by (auto simp: process_defs split: if_splits option.splits)

lemma skipped_same: "process_record d r = Skipped x \<Longrightarrow> x = r"
  by (auto simp: process_defs split: if_splits option.splits)

lemma rejected_facts:
  "process_record d r = Rejected x \<Longrightarrow> r_type x = ''SRV'' \<and> length (py_split (r_data x)) \<noteq> 4"
  by (auto simp: process_defs split: if_splits option.splits)

lemma rejected_stays:
  assumes "r_type x = ''SRV''" "length (py_split (r_data x)) \<noteq> 4"
  shows "\<exists>y. process_record d x = Rejected y"
  using assms by (simp add: process_defs)

lemma second_pass_kept:
  assumes d: "d \<noteq> ''@''"
    and nr: "\<And>e x. process_record d r \<noteq> Raised e x"
    and k2: "process_record d (mutated d r) = Kept r2"
  shows "\<exists>r1. process_record d r = Kept r1 \<and> r_name r2 = r_name r1 @ ''.'' @ d"
proof (cases "process_record d r")
  case (Skipped x)
  then have "mutated d r = r" by (simp add: mutated_def skipped_same)
  with k2 Skipped show ?thesis by simp
next
  case (Rejected x)
  then have "mutated d r = x" by (simp add: mutated_def)
  with rejected_stays [of x d] rejected_facts [OF Rejected] k2 show ?thesis by auto
next
  case (Raised e x)
  with nr [of e x] show ?thesis by simp
next
  case (Kept r1)
  then have m: "mutated d r = r1" by (simp add: mutated_def)
  from kept_fields(1) [OF Kept] d have "r_name r1 \<noteq> ''@''"
    by (auto simp: append_eq_Cons_conv split: if_splits)
  with kept_fields(1) [OF k2 [unfolded m]] Kept show ?thesis by simp
qed

lemma set_surviving:
  "set (surviving d rs) = {r'. \<exists>r\<in>set rs. process_record d r = Kept r'}"
  by (auto simp: surviving_def split: outcome.splits)

lemma second_pass_names:
  assumes "d \<noteq> ''@''" "\<forall>r\<in>set rs. \<forall>e x. process_record d r \<noteq> Raised e x"
  shows "r_name ` set (surviving d (map (mutated d) rs))
           \<subseteq> (\<lambda>n. n @ ''.'' @ d) ` r_name ` set (surviving d rs)"
proof
  fix n assume "n \<in> r_name ` set (surviving d (map (mutated d) rs))"
  then obtain r r2 where r: "r \<in> set rs" "process_record d (mutated d r) = Kept r2" "n = r_name r2"
    by (auto simp: set_surviving)
  from second_pass_kept [OF assms(1) _ r(2)] assms(2) r(1)
  obtain r1 where "process_record d r = Kept r1" "r_name r2 = r_name r1 @ ''.'' @ d" by blast
  with r show "n \<in> (\<lambda>n. n @ ''.'' @ d) ` r_name ` set (surviving d rs)"
    by (auto simp: set_surviving image_iff)
qed

lemma no_shrink:
  assumes "N \<noteq> {}" "s \<noteq> []"
  shows "\<not> N \<subseteq> (\<lambda>n. n @ s) ` N"
proof
  assume sub: "N \<subseteq> (\<lambda>n. n @ s) ` N"
  from assms(1) obtain n0 where "n0 \<in> N" by blast
  then obtain n where n: "n \<in> N" "\<forall>m. m \<in> N \<longrightarrow> length n \<le> length m"
    using ex_has_least_nat [of "\<lambda>x. x \<in> N" n0 length] by blast
  with sub obtain m where "m \<in> N" and "n = m @ s" by blast
  moreover from assms(2) have "0 < length s" by simp
  ultimately have "length m < length n" by simp
  with n(2) \<open>m \<in> N\<close> show False by (simp add: not_less [symmetric])
qed

lemma changes_names:
  assumes "agg_inv agg ks"
  shows "set (map (\<lambda>c. Name (ResourceRecordSet c)) (make_changes agg)) = r_name ` set ks"
proof -
  have a: "map (\<lambda>c. Name (ResourceRecordSet c)) (make_changes agg) = map (\<lambda>p. Name (snd p)) agg"
    by (simp add: make_changes_def)
  have "Name (snd p) = fst (fst p)" if "p \<in> set agg" for p
    using assms that unfolding agg_inv_def by (cases p) auto
  then have b: "map (\<lambda>p. Name (snd p)) agg = map (\<lambda>p. fst (fst p)) agg"
    by simp
  have c: "set (map (\<lambda>p. fst (fst p)) agg) = fst ` set (map fst agg)"
    by (simp add: image_image)
  have d: "set (map fst agg) = key_of ` set ks"
    using assms unfolding agg_inv_def by blast
  have e: "fst ` key_of ` set ks = r_name ` set ks"
    by (simp add: image_image key_of_def)
  show ?thesis
    unfolding a b c d e ..
qed

lemma second_call_differs:
  assumes d: "d \<noteq> ''@''"
    and first: "records_loop d rs [] = (rs1, Inr agg1)"
    and some: "surviving d rs \<noteq> []"
    and second: "records_loop d rs1 [] = (rs2, Inr agg2)"
  shows "make_changes agg2 \<noteq> make_changes agg1"
proof
  assume eq: "make_changes agg2 = make_changes agg1"
  from records_loop_result [OF first]
  have rs1: "rs1 = map (mutated d) rs" and nr: "\<forall>r\<in>set rs. \<forall>e x. process_record d r \<noteq> Raised e x"
    by auto
  let ?N = "r_name ` set (surviving d rs)"
  have "r_name ` set (surviving d rs1) = ?N"
    using changes_names [OF records_loop_inv [OF first]]
      changes_names [OF records_loop_inv [OF second]] eq by simp
  with second_pass_names [OF d nr] rs1 have sub: "?N \<subseteq> (\<lambda>n. n @ ''.'' @ d) ` ?N" by simp
  from some have ne: "?N \<noteq> {}" by simp
  have "''.'' @ d \<noteq> []" by simp
  from no_shrink [OF ne this] sub show False by simp
qed

lemma upd_miss:
  "key \<notin> set (map fst agg) \<Longrightarrow>
     map (\<lambda>(k, v). if k = key then (k, f v) else (k, v)) agg = agg"
  by (induction agg) auto

lemma upd_total:
  "distinct (map fst agg) \<Longrightarrow> key \<in> set (map fst agg) \<Longrightarrow>
     total_values (map (\<lambda>(k, v). if k = key
                         then (k, v\<lparr>ResourceRecords := ResourceRecords v @ [x]\<rparr>)
                         else (k, v)) agg) = Suc (total_values agg)"
proof (induction agg)
  case Nil
  then show ?case by simp
next
  case (Cons p agg)
  obtain k v where p: "p = (k, v)" by (cases p)
  show ?case
  proof (cases "k = key")
    case True
    with Cons.prems p have "key \<notin> set (map fst agg)" by auto
    from upd_miss [OF this] True p show ?thesis by (simp add: total_values_def)
  next
    case False
    with Cons p show ?thesis by (simp add: total_values_def)
  qed
qed

lemma aggregate_total:
  assumes "distinct (map fst agg)"
  shows "total_values (aggregate r agg) = Suc (total_values agg)"
proof (cases "(r_name r, r_type r) \<in> set (map fst agg)")
  case True
  with upd_total [OF assms True, of "r_data r"] show ?thesis
    by (simp add: aggregate_def Let_def)
next
  case False
  from upd_miss [OF False] False show ?thesis
    by (simp add: aggregate_def Let_def total_values_def)
qed

lemma foldl_total:
  "agg_inv agg ks \<Longrightarrow>
     total_values (foldl (\<lambda>a r. aggregate r a) agg rs) = total_values agg + length rs"
proof (induction rs arbitrary: agg ks)
  case Nil
  then show ?case by simp
next
  case (Cons r rs)
  from Cons.prems have "distinct (map fst agg)" by (simp add: agg_inv_def)
  from aggregate_total [OF this, of r] Cons.IH [OF agg_inv_step [OF Cons.prems, of r]]
  show ?case by simp
qed

lemma changes_total:
  "sum_list (map (\<lambda>c. length (ResourceRecords (ResourceRecordSet c))) (make_changes agg))
     = total_values agg"
  by (simp add: make_changes_def total_values_def comp_def)

lemma length_surviving:
  "length (surviving d rs) = length (filter (\<lambda>r. \<exists>r'. process_record d r = Kept r') rs)"
  by (induction rs) (auto simp: surviving_def split: outcome.splits)

lemma r53_zone_id_records:
  "r53_zone_id env self = (res, self') \<Longrightarrow> d_records self' = d_records self \<and> d_name self' = d_name self"
  by (auto simp: r53_zone_id_def Let_def split: if_splits sum.splits error.splits)

lemma records_name:
  "records env (self, calls) = (res, (self', calls')) \<Longrightarrow> d_name self' = d_name self"
  by (auto simp: records_def Let_def split: if_splits sum.splits error.splits option.splits)

lemma r53_create_records_cache:
  assumes "r53_create_records env (self, calls) = (Inr response, (self', calls'))"
  shows "\<exists>rs rs1 agg. fst (records env (self, calls)) = Inr rs \<and>
           records_loop (d_name self) rs [] = (rs1, Inr agg) \<and> d_records self' = Some rs1"
proof -
  obtain res1 self1 calls1 where r: "records env (self, calls) = (res1, (self1, calls1))"
    by (metis surj_pair)
  with assms obtain rs where rs: "res1 = Inr rs"
    by (cases res1) (auto simp: r53_create_records_def)
  obtain rs1 result where l: "records_loop (d_name self1) rs [] = (rs1, result)"
    by (metis surj_pair)
  with assms r rs obtain agg where agg: "result = Inr agg"
    by (cases result) (auto simp: r53_create_records_def)
  obtain zres self2 where z: "r53_zone_id env (self1\<lparr>d_records := Some rs1\<rparr>) = (zres, self2)"
    by (metis surj_pair)
  with assms r rs l agg have "self' = self2"
    by (cases zres) (auto simp: r53_create_records_def)
  with r53_zone_id_records [OF z] have "d_records self' = Some rs1" by simp
  with r rs l agg records_name [OF r] show ?thesis by auto
qed

section \<open>Claims about the migration decision\<close>

text \<open>
  C1.  When reading the record list gives \<open>rs\<close>, \<open>requires_zone_migration\<close> returns
  false for the empty list; otherwise it returns true exactly when no record has name
  \<open>@\<close>, type \<open>A\<close> and data \<open>Parked\<close>, or \<open>rs\<close> has at most 6 records.
\<close>

theorem requires_zone_migration_decision:
  assumes "fst (records env s) = Inr rs"
  shows "fst (requires_zone_migration env s) =
           Inr (rs \<noteq> [] \<and>
                (\<not> (\<exists>r\<in>set rs. r_name r = ''@'' \<and> r_type r = ''A'' \<and> r_data r = ''Parked'')
                 \<or> length rs \<le> 6))"
  using requires_zone_migration_result [OF assms]
  by (simp add: parked_loop_iff is_parked_apex_def)

theorem requires_zone_migration_decision_witness:
  "fst (records rejecting_backend (first_domain, 0)) = Inr [www_record] \<and>
   fst (requires_zone_migration rejecting_backend (first_domain, 0)) = Inr True"
proof -
  have h: "fst (records rejecting_backend (first_domain, 0)) = Inr [www_record]"
    by (simp add: records_def truthy_def rejecting_backend_def first_domain_def)
  from requires_zone_migration_decision [OF h] h show ?thesis
    by (simp add: www_record_def)
qed

text \<open>
  C8, as stated: every record list with at most 6 records and no parked apex record
  requires migration.  The empty list has at most 6 records and no parked apex record,
  and the answer for it is false.
\<close>

theorem requires_zone_migration_empty_counterexample:
  "fst (records flaky_backend (first_domain, 0)) = Inr [] \<and>
   fst (requires_zone_migration flaky_backend (first_domain, 0)) = Inr False"
  by (simp add: requires_zone_migration_def gd_dns_exists_def records_def truthy_def
      flaky_backend_def first_domain_def)

text \<open>
  C8, amended: every non-empty record list with at most 6 records and no record of name
  \<open>@\<close>, type \<open>A\<close> and data \<open>Parked\<close> requires migration.
\<close>

theorem requires_zone_migration_small_unparked:
  assumes "fst (records env s) = Inr rs"
    and "rs \<noteq> []"
    and "length rs \<le> 6"
    and "\<not> (\<exists>r\<in>set rs. r_name r = ''@'' \<and> r_type r = ''A'' \<and> r_data r = ''Parked'')"
  shows "fst (requires_zone_migration env s) = Inr True"
  using requires_zone_migration_result [OF assms(1)] assms(2,4)
  by (simp add: parked_loop_iff is_parked_apex_def)

theorem requires_zone_migration_small_unparked_witness:
  "fst (records rejecting_backend (second_domain, 0)) = Inr [www_record] \<and>
   [www_record] \<noteq> [] \<and> length [www_record] \<le> 6 \<and>
   fst (requires_zone_migration rejecting_backend (second_domain, 0)) = Inr True"
proof -
  have h: "fst (records rejecting_backend (second_domain, 0)) = Inr [www_record]"
    by (simp add: records_def truthy_def rejecting_backend_def second_domain_def)
  have p: "\<not> (\<exists>r\<in>set [www_record]. r_name r = ''@'' \<and> r_type r = ''A'' \<and> r_data r = ''Parked'')"
    by (simp add: www_record_def)
  from requires_zone_migration_small_unparked [OF h _ _ p] h show ?thesis
    by simp
qed

section \<open>Claims about the record transformation\<close>

text \<open>
  C2.  When the loop ends without an exception: a record that reaches the aggregation
  has the domain name as its name if its name was \<open>@\<close>, and \<open>name.domain\<close> otherwise;
  no two entries of the change set have the same name and type; every such record has
  an entry of its name and type; and the values of an entry are the data of the records of
  its name and type that reached the aggregation, in the order met, its TTL the TTL of the
  first of them.
\<close>

theorem r53_create_records_aggregation:
  assumes "records_loop self_name rs [] = (rs', Inr aggregated_records)"
  shows "(\<forall>r\<in>set rs. \<forall>r'. process_record self_name r = Kept r' \<longrightarrow>
            r_name r' = (if r_name r = ''@'' then self_name else r_name r @ ''.'' @ self_name)) \<and>
         distinct (map (\<lambda>c. (Name (ResourceRecordSet c), Type (ResourceRecordSet c)))
                     (make_changes aggregated_records)) \<and>
         (\<forall>r\<in>set (surviving self_name rs). \<exists>c\<in>set (make_changes aggregated_records).
            Name (ResourceRecordSet c) = r_name r \<and> Type (ResourceRecordSet c) = r_type r) \<and>
         (\<forall>c\<in>set (make_changes aggregated_records).
            Action c = ''UPSERT'' \<and>
            filter (\<lambda>r. r_name r = Name (ResourceRecordSet c) \<and> r_type r = Type (ResourceRecordSet c))
              (surviving self_name rs) \<noteq> [] \<and>
            ResourceRecords (ResourceRecordSet c) =
              map r_data
                (filter (\<lambda>r. r_name r = Name (ResourceRecordSet c) \<and> r_type r = Type (ResourceRecordSet c))
                   (surviving self_name rs)) \<and>
            TTL (ResourceRecordSet c) =
              r_ttl (hd (filter (\<lambda>r. r_name r = Name (ResourceRecordSet c) \<and>
                                      r_type r = Type (ResourceRecordSet c))
                           (surviving self_name rs))))"
proof -
  let ?ks = "surviving self_name rs"
  let ?agg = aggregated_records
  from records_loop_inv [OF assms] have inv: "agg_inv ?agg ?ks" .
  then have dist: "distinct (map fst ?agg)" and keys: "set (map fst ?agg) = key_of ` set ?ks"
    by (simp_all add: agg_inv_def)
  have entry: "Name v = fst k \<and> Type v = snd k \<and>
      ResourceRecords v = map r_data (filter (\<lambda>r. key_of r = k) ?ks) \<and>
      TTL v = r_ttl (hd (filter (\<lambda>r. key_of r = k) ?ks))"
    if "(k, v) \<in> set ?agg" for k v
    using inv that unfolding agg_inv_def by blast
  have key_eq: "(Name (snd p), Type (snd p)) = fst p" if "p \<in> set ?agg" for p
    using entry [of "fst p" "snd p"] that by simp
  have c1: "\<forall>r\<in>set rs. \<forall>r'. process_record self_name r = Kept r' \<longrightarrow>
            r_name r' = (if r_name r = ''@'' then self_name else r_name r @ ''.'' @ self_name)"
    using kept_fields(1) by blast
  have "map (\<lambda>c. (Name (ResourceRecordSet c), Type (ResourceRecordSet c))) (make_changes ?agg)
          = map (\<lambda>p. (Name (snd p), Type (snd p))) ?agg"
    by (simp add: make_changes_def comp_def)
  also have "\<dots> = map fst ?agg"
    using key_eq by simp
  finally have c2: "distinct (map (\<lambda>c. (Name (ResourceRecordSet c), Type (ResourceRecordSet c)))
                     (make_changes ?agg))"
    using dist by simp
  have c3: "\<exists>c\<in>set (make_changes ?agg).
            Name (ResourceRecordSet c) = r_name r \<and> Type (ResourceRecordSet c) = r_type r"
    if "r \<in> set ?ks" for r
  proof -
    from that keys have "key_of r \<in> set (map fst ?agg)" by simp
    then obtain v where v: "(key_of r, v) \<in> set ?agg" by auto
    then have "\<lparr>Action = ''UPSERT'', ResourceRecordSet = v\<rparr> \<in> set (make_changes ?agg)"
      by (force simp: make_changes_def)
    moreover from entry [OF v] have "Name v = r_name r" "Type v = r_type r"
      by (simp_all add: key_of_def)
    ultimately show ?thesis by force
  qed
  have c4: "Action c = ''UPSERT'' \<and>
            filter (\<lambda>r. r_name r = Name (ResourceRecordSet c) \<and> r_type r = Type (ResourceRecordSet c))
              ?ks \<noteq> [] \<and>
            ResourceRecords (ResourceRecordSet c) =
              map r_data
                (filter (\<lambda>r. r_name r = Name (ResourceRecordSet c) \<and> r_type r = Type (ResourceRecordSet c))
                   ?ks) \<and>
            TTL (ResourceRecordSet c) =
              r_ttl (hd (filter (\<lambda>r. r_name r = Name (ResourceRecordSet c) \<and>
                                      r_type r = Type (ResourceRecordSet c)) ?ks))"
    if "c \<in> set (make_changes ?agg)" for c
  proof -
    from that obtain k v where kv: "(k, v) \<in> set ?agg"
      and c: "c = \<lparr>Action = ''UPSERT'', ResourceRecordSet = v\<rparr>"
      by (auto simp: make_changes_def)
    from entry [OF kv] have e: "Name v = fst k" "Type v = snd k"
      "ResourceRecords v = map r_data (filter (\<lambda>r. key_of r = k) ?ks)"
      "TTL v = r_ttl (hd (filter (\<lambda>r. key_of r = k) ?ks))"
      by simp_all
    have f: "(\<lambda>r. r_name r = Name v \<and> r_type r = Type v) = (\<lambda>r. key_of r = k)"
      using e(1,2) by (auto simp: key_of_def fun_eq_iff)
    from kv keys have "k \<in> key_of ` set ?ks" by force
    then have "filter (\<lambda>r. key_of r = k) ?ks \<noteq> []"
      by (auto simp: filter_empty_conv)
    with e(3,4) show ?thesis unfolding c by (simp add: f)
  qed
  from c1 c2 c3 c4 show ?thesis by blast
qed

theorem r53_create_records_aggregation_witness:
  "records_loop ''example.com'' www_pair [] =
     ([\<lparr>r_name = ''www.example.com'', r_type = ''A'', r_data = ''1.2.3.4'', r_ttl = 600,
         r_priority = None\<rparr>,
       \<lparr>r_name = ''www.example.com'', r_type = ''A'', r_data = ''5.6.7.8'', r_ttl = 3600,
         r_priority = None\<rparr>],
      Inr [((''www.example.com'', ''A''),
            \<lparr>Name = ''www.example.com'', Type = ''A'', TTL = 600,
              ResourceRecords = [''1.2.3.4'', ''5.6.7.8'']\<rparr>)]) \<and>
   distinct (map (\<lambda>c. (Name (ResourceRecordSet c), Type (ResourceRecordSet c)))
      (make_changes [((''www.example.com'', ''A''),
            \<lparr>Name = ''www.example.com'', Type = ''A'', TTL = 600,
              ResourceRecords = [''1.2.3.4'', ''5.6.7.8'']\<rparr>)]))"
proof -
  have h: "records_loop ''example.com'' www_pair [] =
     ([\<lparr>r_name = ''www.example.com'', r_type = ''A'', r_data = ''1.2.3.4'', r_ttl = 600,
         r_priority = None\<rparr>,
       \<lparr>r_name = ''www.example.com'', r_type = ''A'', r_data = ''5.6.7.8'', r_ttl = 3600,
         r_priority = None\<rparr>],
      Inr [((''www.example.com'', ''A''),
            \<lparr>Name = ''www.example.com'', Type = ''A'', TTL = 600,
              ResourceRecords = [''1.2.3.4'', ''5.6.7.8'']\<rparr>)])"
    by (simp add: www_pair_def process_defs aggregate_def)
  from r53_create_records_aggregation [OF h] h show ?thesis
    by blast
qed

text \<open>
  C5.  When the loop ends without an exception, a record of the list reaches the
  aggregation exactly when none of the drop rules holds for it (type SOA or NS; type A with
  data \<open>Parked\<close>; type CNAME with name \<open>_domainconnect\<close>; type SRV with data that does
  not split into 4 fields), and the change set holds one value for each such record.
\<close>

theorem r53_create_records_drops:
  assumes "records_loop self_name rs [] = (rs', Inr aggregated_records)"
  shows "(\<forall>r\<in>set rs. (\<exists>r'. process_record self_name r = Kept r') \<longleftrightarrow> \<not> spec_dropped r) \<and>
         sum_list (map (\<lambda>c. length (ResourceRecords (ResourceRecordSet c)))
                     (make_changes aggregated_records)) =
           length (filter (\<lambda>r. \<not> spec_dropped r) rs)"
proof -
  from records_loop_result [OF assms]
  have agg: "aggregated_records = foldl (\<lambda>a r. aggregate r a) [] (surviving self_name rs)"
    and nr: "\<forall>r\<in>set rs. \<forall>e x. process_record self_name r \<noteq> Raised e x"
    by simp_all
  have iff: "(\<exists>r'. process_record self_name r = Kept r') \<longleftrightarrow> \<not> spec_dropped r"
    if "r \<in> set rs" for r
    using kept_iff [of self_name r] nr that by blast
  have "sum_list (map (\<lambda>c. length (ResourceRecords (ResourceRecordSet c)))
                     (make_changes aggregated_records)) = length (surviving self_name rs)"
    unfolding changes_total agg
    using foldl_total [OF agg_inv_Nil, of "surviving self_name rs"]
    by (simp add: total_values_def)
  also have "\<dots> = length (filter (\<lambda>r. \<exists>r'. process_record self_name r = Kept r') rs)"
    by (rule length_surviving)
  also have "filter (\<lambda>r. \<exists>r'. process_record self_name r = Kept r') rs
               = filter (\<lambda>r. \<not> spec_dropped r) rs"
    using iff by (intro filter_cong) auto
  finally show ?thesis using iff by blast
qed

theorem r53_create_records_drops_witness:
  "records_loop ''example.com'' srv_records [] =
     ([\<lparr>r_name = ''_sip._tcp.example.com'', r_type = ''SRV'', r_data = ''10 20 5060'', r_ttl = 600,
         r_priority = Some 10\<rparr>,
       \<lparr>r_name = ''@'', r_type = ''NS'', r_data = ''ns1.domaincontrol.com'',
         r_ttl = 3600, r_priority = None\<rparr>,
       \<lparr>r_name = ''example.com'', r_type = ''TXT'', r_data = [CHR 0x22] @ ''v=spf1 -all'' @ [CHR 0x22],
         r_ttl = 600, r_priority = None\<rparr>],
      Inr [((''example.com'', ''TXT''),
            \<lparr>Name = ''example.com'', Type = ''TXT'', TTL = 600,
              ResourceRecords = [[CHR 0x22] @ ''v=spf1 -all'' @ [CHR 0x22]]\<rparr>)]) \<and>
   length (filter (\<lambda>r. \<not> spec_dropped r) srv_records) = 1"
proof -
  have s: "py_split ''10 20 5060'' = [''10'', ''20'', ''5060'']"
    by (simp add: py_split_def isspace_def)
  have h: "records_loop ''example.com'' srv_records [] =
     ([\<lparr>r_name = ''_sip._tcp.example.com'', r_type = ''SRV'', r_data = ''10 20 5060'', r_ttl = 600,
         r_priority = Some 10\<rparr>,
       \<lparr>r_name = ''@'', r_type = ''NS'', r_data = ''ns1.domaincontrol.com'',
         r_ttl = 3600, r_priority = None\<rparr>,
       \<lparr>r_name = ''example.com'', r_type = ''TXT'', r_data = [CHR 0x22] @ ''v=spf1 -all'' @ [CHR 0x22],
         r_ttl = 600, r_priority = None\<rparr>],
      Inr [((''example.com'', ''TXT''),
            \<lparr>Name = ''example.com'', Type = ''TXT'', TTL = 600,
              ResourceRecords = [[CHR 0x22] @ ''v=spf1 -all'' @ [CHR 0x22]]\<rparr>)])"
    by (simp add: srv_records_def process_defs aggregate_def s)
  from r53_create_records_drops [OF h] h show ?thesis
    by (simp add: make_changes_def)
qed

text \<open>
  C6.  A record that reaches the aggregation has as data: the domain name, if it is a
  CNAME whose data was \<open>@\<close>; \<open>76.223.105.230\<close>, if it is an A record whose data was
  \<open>WebsiteBuilder Site\<close>; the priority, one space and the former data, if it is an MX
  record; the former data between two double quotes, if it is a TXT record.  That data
  is the value the aggregation adds to the change set.
\<close>

theorem r53_create_records_data:
  assumes "process_record self_name r = Kept r'"
  shows "(r_type r = ''CNAME'' \<and> r_data r = ''@'' \<longrightarrow> r_data r' = self_name) \<and>
         (r_type r = ''A'' \<and> r_data r = ''WebsiteBuilder Site'' \<longrightarrow> r_data r' = ''76.223.105.230'') \<and>
         (r_type r = ''MX'' \<longrightarrow>
            (\<exists>p. r_priority r = Some p \<and> r_data r' = str_int p @ '' '' @ r_data r)) \<and>
         (r_type r = ''TXT'' \<longrightarrow> r_data r' = [CHR 0x22] @ r_data r @ [CHR 0x22]) \<and>
         map (\<lambda>c. ResourceRecords (ResourceRecordSet c)) (make_changes (aggregate r' [])) =
           [[r_data r']]"
  using kept_data [OF assms] by (simp add: make_changes_def aggregate_def)

theorem r53_create_records_data_witness:
  "process_record ''example.com'' mx_record =
     Kept (mx_record\<lparr>r_name := ''example.com'', r_data := ''10 mail.example.com''\<rparr>) \<and>
   r_type mx_record = ''MX'' \<and> r_priority mx_record = Some 10 \<and>
   str_int 10 @ '' '' @ r_data mx_record = ''10 mail.example.com''"
proof -
  have n: "str_int 10 = ''10''"
    by (simp add: str_int_def digit_def)
  have h: "process_record ''example.com'' mx_record =
     Kept (mx_record\<lparr>r_name := ''example.com'', r_data := ''10 mail.example.com''\<rparr>)"
    by (simp add: mx_record_def process_defs n)
  from r53_create_records_data [OF h] h show ?thesis
    by (simp add: mx_record_def)
qed

text \<open>
  C10, as stated: for any domain with a record that reaches the aggregation, a second call
  does not build the change set of the first.  For the domain named \<open>@\<close> the rewritten
  apex name is \<open>@\<close> again: the records are left as they were and the second call builds
  the same change set.
\<close>

theorem r53_create_records_twice_counterexample:
  "process_record ''@'' apex_record = Kept apex_record \<and>
   records_loop ''@'' [apex_record] [] =
     ([apex_record],
      Inr [((''@'', ''A''),
            \<lparr>Name = ''@'', Type = ''A'', TTL = 600, ResourceRecords = [''192.0.2.1'']\<rparr>)]) \<and>
   snd (records_loop ''@'' (fst (records_loop ''@'' [apex_record] [])) []) =
     snd (records_loop ''@'' [apex_record] [])"
  by (simp add: apex_record_def process_defs aggregate_def)

text \<open>
  C10, amended: for a domain whose name is not \<open>@\<close>, after a call whose loop ends
  without an exception the cached list holds, in the place of every record that reached the
  aggregation, its rewritten form, whose name is the fully qualified one; and if a record
  reached the aggregation, a second pass over the cached list does not build the change
  set of the first.
\<close>

theorem r53_create_records_twice:
  assumes "self_name \<noteq> ''@''"
    and "records_loop self_name rs [] = (rs1, Inr aggregated_records)"
    and "surviving self_name rs \<noteq> []"
  shows "length rs1 = length rs \<and>
         (\<forall>i<length rs. \<forall>r'. process_record self_name (rs ! i) = Kept r' \<longrightarrow>
            rs1 ! i = r' \<and>
            r_name (rs1 ! i) =
              (if r_name (rs ! i) = ''@'' then self_name else r_name (rs ! i) @ ''.'' @ self_name) \<and>
            r_name (rs1 ! i) \<noteq> r_name (rs ! i)) \<and>
         \<not> (\<exists>rs2 aggregated_records2.
               records_loop self_name rs1 [] = (rs2, Inr aggregated_records2) \<and>
               make_changes aggregated_records2 = make_changes aggregated_records)"
proof -
  from records_loop_result [OF assms(2)] have rs1: "rs1 = map (mutated self_name) rs"
    by simp
  have a: "length rs1 = length rs" by (simp add: rs1)
  have b: "rs1 ! i = r' \<and>
            r_name (rs1 ! i) =
              (if r_name (rs ! i) = ''@'' then self_name else r_name (rs ! i) @ ''.'' @ self_name) \<and>
            r_name (rs1 ! i) \<noteq> r_name (rs ! i)"
    if "i < length rs" "process_record self_name (rs ! i) = Kept r'" for i r'
  proof -
    from that have m: "rs1 ! i = r'" by (simp add: rs1 mutated_def)
    from kept_fields(1) [OF that(2)]
    have n: "r_name r' = (if r_name (rs ! i) = ''@'' then self_name
                          else r_name (rs ! i) @ ''.'' @ self_name)" .
    with assms(1) have "r_name r' \<noteq> r_name (rs ! i)"
      by (auto split: if_splits)
    with m n show ?thesis by simp
  qed
  have c: "make_changes aggregated_records2 \<noteq> make_changes aggregated_records"
    if "records_loop self_name rs1 [] = (rs2, Inr aggregated_records2)" for rs2 aggregated_records2
    using second_call_differs [OF assms(1) assms(2) assms(3) that] .
  from a b c show ?thesis by blast
qed

theorem r53_create_records_twice_witness:
  "''example.com'' \<noteq> ''@'' \<and>
   records_loop ''example.com'' [apex_record] [] =
     ([apex_record\<lparr>r_name := ''example.com''\<rparr>],
      Inr [((''example.com'', ''A''),
            \<lparr>Name = ''example.com'', Type = ''A'', TTL = 600,
              ResourceRecords = [''192.0.2.1'']\<rparr>)]) \<and>
   surviving ''example.com'' [apex_record] \<noteq> [] \<and>
   snd (records_loop ''example.com'' [apex_record\<lparr>r_name := ''example.com''\<rparr>] []) \<noteq>
     Inr [((''example.com'', ''A''),
            \<lparr>Name = ''example.com'', Type = ''A'', TTL = 600,
              ResourceRecords = [''192.0.2.1'']\<rparr>)]"
proof -
  have d: "''example.com'' \<noteq> ''@''" by simp
  have h: "records_loop ''example.com'' [apex_record] [] =
     ([apex_record\<lparr>r_name := ''example.com''\<rparr>],
      Inr [((''example.com'', ''A''),
            \<lparr>Name = ''example.com'', Type = ''A'', TTL = 600,
              ResourceRecords = [''192.0.2.1'']\<rparr>)])"
    by (simp add: apex_record_def process_defs aggregate_def)
  have s: "surviving ''example.com'' [apex_record] \<noteq> []"
    by (simp add: surviving_def apex_record_def process_defs)
  from r53_create_records_twice [OF d h s] d h s show ?thesis
    by (cases "records_loop ''example.com'' [apex_record\<lparr>r_name := ''example.com''\<rparr>] []") auto
qed

section \<open>Claims about the processing loop, the throttle and the caches\<close>

text \<open>What does hold of the two properties: a \<open>BadResponse\<close> gives the empty list, a
  non-empty list is read from the cache (\<open>records_cached\<close>), and a zone id found by the
  lookup is the id of a zone named \<open>self.name + '.'\<close>.\<close>

lemma records_bad_response:
  assumes "\<not> truthy (d_records self)"
    and "gd_get_records env (d_name self) calls = Inl BadResponse"
  shows "fst (records env (self, calls)) = Inr []"
  using assms by (simp add: records_def)

lemma find_zone_exact:
  "find_zone zones self_name None = Some zone_id \<Longrightarrow>
     \<exists>zone\<in>set zones. z_Name zone = self_name @ ''.'' \<and> z_Id zone = zone_id"
  by (induction zones) (auto split: if_splits)

lemma r53_zone_id_exact:
  assumes "d_r53_zone_id self = None"
    and "r53_zone_id env self = (Inr (Some zone_id), self')"
  shows "\<exists>zones. list_hosted_zones_by_name env (d_name self) = Inr zones \<and>
           (\<exists>zone\<in>set zones. z_Name zone = d_name self @ ''.'' \<and> z_Id zone = zone_id)"
  using assms find_zone_exact [of _ "d_name self" zone_id]
  by (auto simp: r53_zone_id_def truthy_def Let_def split: sum.splits error.splits)

text \<open>
  C3.  A failure of the record batch of one domain should end that domain only, and the
  run should still produce one row per domain.  With two domains, the first of which has
  its batch refused: the run ends at the first domain, the second is never processed and
  no row is written; the second domain alone is migrated and reported.
\<close>

theorem main_hard_failure:
  "main rejecting_backend [first_domain, second_domain] = (None, [''first.example'']) \<and>
   main rejecting_backend [second_domain] =
     (Some [\<lparr>has_godaddy_dns = Some ''Yes'', requires_dns_migration = Some ''Yes'',
              aws_zone_id = Some ''/hostedzone/second.example'',
              aws_dns_records_created = Some ''Yes'', supports_email = Some ''No''\<rparr>],
      [''second.example''])"
  by (simp add: main_def process_domain_def migrate_def rejecting_backend_def first_domain_def
      second_domain_def gd_dns_exists_def requires_zone_migration_def records_def truthy_def
      r53_zone_exists_def r53_zone_id_def r53_create_zone_def r53_create_records_def
      r53_get_nameservers_def gd_update_nameservers_def has_mx_records_def blank_row_def yes_no_def
      process_defs aggregate_def make_changes_def www_record_def is_parked_apex_def)

text \<open>
  C4.  Two calls through one client should start at least \<open>wait_time\<close> apart.  A client
  created at time 0 and first used one second later lets three calls start at the same
  clock reading: \<open>last_call_time\<close> is set in the waiting branch only, so once a call
  has come \<open>wait_time\<close> after it, no later call waits.
\<close>

theorem wait_until_no_spacing:
  "consecutive_calls (GoDaddyClient_init 0) 1000000 3 = [1000000, 1000000, 1000000]"
  by (simp add: GoDaddyClient_init_def wait_until_def wait_time_def numeral_3_eq_3)

text \<open>
  C7.  A \<open>BadResponse\<close> gives the empty list, and the empty list is stored; but the
  stored empty list is false in \<open>if not self._records\<close>, so the next read calls the
  registrar again and returns what that call gives.
\<close>

theorem records_empty_not_cached:
  "records flaky_backend (first_domain, 0) =
     (Inr [], (first_domain\<lparr>d_records := Some []\<rparr>, 1)) \<and>
   records flaky_backend (first_domain\<lparr>d_records := Some []\<rparr>, 1) =
     (Inr [www_record], (first_domain\<lparr>d_records := Some [www_record]\<rparr>, 2))"
  by (simp add: records_def truthy_def flaky_backend_def first_domain_def)

text \<open>
  C9.  A name that Route 53 rejects with \<open>InvalidDomainName\<close> should give no zone id;
  the lookup raises the exception instead.
\<close>

theorem r53_zone_id_invalid_domain_name:
  "r53_zone_id flaky_backend first_domain = (Inl InvalidDomainName, first_domain)"
  by (simp add: r53_zone_id_def truthy_def flaky_backend_def first_domain_def)

end
